theory Spec2Isabelle
  imports Main "HOL-Library.Multiset" "HOL-Library.Char_ord" "HOL-Library.List_Lexorder"
begin

section \<open>File listing (\<open>list_mp3_files\<close>, lines 21-40)\<close>

text \<open>
  File names are strings, compared character by character as Python compares \<open>str\<close>
  values (a proper prefix is smaller). \<open>str.lower\<close> is modelled on the ASCII letters,
  the only characters whose lower-case form occurs in \<open>'.mp3'\<close>.
\<close>

definition lower_char :: "char \<Rightarrow> char" where
  "lower_char c =
     (if CHR ''A'' \<le> c \<and> c \<le> CHR ''Z'' then char_of (of_char c + (32::nat)) else c)"

definition lower :: "string \<Rightarrow> string" where
  "lower s = map lower_char s"

definition endswith :: "string \<Rightarrow> string \<Rightarrow> bool" where
  "endswith s suf = (length suf \<le> length s \<and> drop (length s - length suf) s = suf)"

text \<open>
  The argument is the result of \<open>os.listdir(folder_path)\<close>: the names of the entries
  of the folder, in arbitrary order.
\<close>

definition list_mp3_files :: "string list \<Rightarrow> string list" where
  "list_mp3_files all_items =
     (let mp3_files = filter (\<lambda>file. endswith (lower file) ''.mp3'') all_items;
          sorted_mp3_files = sort mp3_files
      in sorted_mp3_files)"

section \<open>Program state, exceptions and the terminal\<close>

text \<open>
  Exceptions of the Python run that the model distinguishes. \<open>IOError\<close> is an alias of
  \<open>OSError\<close> in Python 3; \<open>sys.exit(n)\<close> raises \<open>SystemExit n\<close>.
\<close>

datatype exn =
    IndexError | NameError | KeyboardInterrupt | CouldntDecodeError | OSError
  | SystemExit nat | OtherError

text \<open>
  Standard input is a finite sequence of events followed by end of file. An event is a
  character delivered by \<open>sys.stdin.read(1)\<close>, or an exception raised out of that call
  (an interrupt or an I/O failure while the loop is blocked on input).
\<close>

datatype event = Ch char | Raises exn

text \<open>
  An \<open>AudioSegment\<close> of the audio library is modelled by the sequence of pieces it was
  concatenated from, each with its length in milliseconds: \<open>+\<close> is append,
  \<open>AudioSegment.empty()\<close> is the empty sequence and \<open>len\<close> is the total length.
\<close>

datatype piece = Clip string nat | Silence nat

type_synonym audio = "piece list"

fun piece_len :: "piece \<Rightarrow> nat" where
  "piece_len (Clip name ms) = ms"
| "piece_len (Silence ms) = ms"

definition audio_len :: "audio \<Rightarrow> nat" where
  "audio_len a = sum_list (map piece_len a)"

datatype message = FolderNotFound | NotADirectory | NoMp3Found | CouldNotWrite | NoValidFiles

text \<open>
  The variables of the script and the effects the claims are about. \<open>char\<close> is
  \<open>None\<close> while the variable is unbound. \<open>raw_mode\<close> tells whether the terminal is
  in raw mode, \<open>restores\<close> counts the calls
  \<open>termios.tcsetattr(fd, TCSADRAIN, original_settings)\<close>. \<open>processing\<close> is the sequence
  of \<open>Processing: <filename>\<close> lines, \<open>written\<close> what \<open>export\<close> wrote, \<open>messages\<close>
  the error reports. The screen drawn by \<open>display_mp3_files\<close> has no effect on any of
  these and is left out.
\<close>

record world =
  mp3_files :: "string list"
  focused_index :: int
  selected_index :: "int option"
  char :: "string option"
  stdin :: "event list"
  raw_mode :: bool
  restores :: nat
  processing :: "string list"
  written :: "audio option"
  messages :: "message list"

section \<open>Python list indexing\<close>

text \<open>
  \<open>xs[i]\<close> for an integer \<open>i\<close>: a negative index counts from the end, an index out
  of range raises \<open>IndexError\<close>.
\<close>

definition py_index :: "'a list \<Rightarrow> int \<Rightarrow> nat option" where
  "py_index xs i =
     (let n = int (length xs)
      in if 0 \<le> i \<and> i < n then Some (nat i)
         else if - n \<le> i \<and> i < 0 then Some (nat (n + i))
         else None)"

text \<open>
  \<open>xs[i], xs[j] = xs[j], xs[i]\<close>: the right-hand side is read first (and may raise),
  then \<open>xs[i]\<close> and \<open>xs[j]\<close> are assigned in this order.
\<close>

definition swap_items :: "'a list \<Rightarrow> int \<Rightarrow> int \<Rightarrow> exn + 'a list" where
  "swap_items xs i j =
     (case (py_index xs j, py_index xs i) of
        (Some j', Some i') \<Rightarrow> Inr ((xs[i' := xs ! j'])[j' := xs ! i'])
      | _ \<Rightarrow> Inl IndexError)"

section \<open>The interactive loop (lines 153-216)\<close>

definition ESC :: string where "ESC = [CHR 0x1B]"
definition CR :: string where "CR = [CHR 0x0D]"
definition LF :: string where "LF = [CHR 0x0A]"

text \<open>\<open>sys.stdin.read(1)\<close>: one character, or the empty string at end of file.\<close>

fun read1 :: "event list \<Rightarrow> exn + (string \<times> event list)" where
  "read1 [] = Inr ([], [])"
| "read1 (Ch c # rest) = Inr ([c], rest)"
| "read1 (Raises e # rest) = Inl e"

datatype step = Continue world | Break world | Raise exn world

text \<open>One iteration of \<open>while True\<close>, lines 155-216.\<close>

definition loop_body :: "world \<Rightarrow> step" where
  "loop_body w =
    (case read1 (stdin w) of
       Inl e \<Rightarrow> Raise e w
     | Inr (ch, s1) \<Rightarrow>
        let w1 = w\<lparr>char := Some ch, stdin := s1\<rparr> in
        if ch = ESC then
          (case read1 s1 of
             Inl e \<Rightarrow> Raise e w1
           | Inr (next_char, s2) \<Rightarrow>
              let w2 = w1\<lparr>stdin := s2\<rparr> in
              if next_char = ''['' then
                (case read1 s2 of
                   Inl e \<Rightarrow> Raise e w2
                 | Inr (arrow_key, s3) \<Rightarrow>
                    let w3 = w2\<lparr>stdin := s3\<rparr> in
                    if arrow_key = ''A'' then
                      (case selected_index w3 of
                         Some sel \<Rightarrow>
                           if sel > 0 then
                             (case swap_items (mp3_files w3) sel (sel - 1) of
                                Inl e \<Rightarrow> Raise e w3
                              | Inr fs \<Rightarrow>
                                  Continue (w3\<lparr>mp3_files := fs,
                                    selected_index := Some (sel - 1),
                                    focused_index := sel - 1\<rparr>))
                           else Continue w3
                       | None \<Rightarrow>
                           Continue (w3\<lparr>focused_index := max 0 (focused_index w3 - 1)\<rparr>))
                    else if arrow_key = ''B'' then
                      (case selected_index w3 of
                         Some sel \<Rightarrow>
                           if sel < int (length (mp3_files w3)) - 1 then
                             (case swap_items (mp3_files w3) sel (sel + 1) of
                                Inl e \<Rightarrow> Raise e w3
                              | Inr fs \<Rightarrow>
                                  Continue (w3\<lparr>mp3_files := fs,
                                    selected_index := Some (sel + 1),
                                    focused_index := sel + 1\<rparr>))
                           else Continue w3
                       | None \<Rightarrow>
                           Continue (w3\<lparr>focused_index :=
                             min (int (length (mp3_files w3)) - 1) (focused_index w3 + 1)\<rparr>))
                    else Continue w3)
              else Continue w2)
        else if ch = CR \<or> ch = LF then
          (case selected_index w1 of
             None \<Rightarrow> Continue (w1\<lparr>selected_index := Some (focused_index w1)\<rparr>)
           | Some sel \<Rightarrow> Continue (w1\<lparr>selected_index := None\<rparr>))
        else if ch = ''c'' then
          Break (w1\<lparr>raw_mode := False, restores := Suc (restores w1)\<rparr>)
        else if ch = ''q'' then Break w1
        else Continue w1)"

text \<open>
  The loop itself. It need not end: at end of file \<open>read(1)\<close> returns the empty string
  for ever and no branch breaks. The result is the exception in flight, if any, and the
  state the loop was left in.
\<close>

partial_function (option) interactive_loop :: "world \<Rightarrow> (exn option \<times> world) option" where
  "interactive_loop w =
     (case loop_body w of
        Continue w' \<Rightarrow> interactive_loop w'
      | Break w' \<Rightarrow> Some (None, w')
      | Raise e w' \<Rightarrow> Some (Some e, w'))"

declare interactive_loop.simps [code]

section \<open>Key decoding and list editing, as parts of the loop body\<close>

text \<open>
  The loop body does two things in one pass: it reads one key (one to three characters,
  lines 155-163 and the tests at lines 165, 179, 195, 204 and 212) and it updates the
  list and the two indices (lines 166-192 and 196-201). \<open>next_key\<close> and \<open>apply_cmd\<close>
  are these two parts taken alone; lemma \<open>loop_body_decode\<close> below states how the loop
  body is composed of them.
\<close>

datatype command = MoveUp | MoveDown | TogglePick | Combine | Quit | Ignore

definition next_key :: "event list \<Rightarrow> exn + (command \<times> event list)" where
  "next_key s =
    (case read1 s of
       Inl e \<Rightarrow> Inl e
     | Inr (ch, s1) \<Rightarrow>
        if ch = ESC then
          (case read1 s1 of
             Inl e \<Rightarrow> Inl e
           | Inr (next_char, s2) \<Rightarrow>
              if next_char = ''['' then
                (case read1 s2 of
                   Inl e \<Rightarrow> Inl e
                 | Inr (arrow_key, s3) \<Rightarrow>
                    if arrow_key = ''A'' then Inr (MoveUp, s3)
                    else if arrow_key = ''B'' then Inr (MoveDown, s3)
                    else Inr (Ignore, s3))
              else Inr (Ignore, s2))
        else if ch = CR \<or> ch = LF then Inr (TogglePick, s1)
        else if ch = ''c'' then Inr (Combine, s1)
        else if ch = ''q'' then Inr (Quit, s1)
        else Inr (Ignore, s1))"

text \<open>
  The assignments to \<open>mp3_files\<close>, \<open>focused_index\<close> and \<open>selected_index\<close> made for a
  key. The branches of \<open>c\<close> and \<open>q\<close> leave the loop and assign none of the three.
\<close>

fun apply_cmd :: "command \<Rightarrow> world \<Rightarrow> exn + world" where
  "apply_cmd MoveUp w =
     (case selected_index w of
        Some sel \<Rightarrow>
          if sel > 0 then
            (case swap_items (mp3_files w) sel (sel - 1) of
               Inl e \<Rightarrow> Inl e
             | Inr fs \<Rightarrow>
                 Inr (w\<lparr>mp3_files := fs, selected_index := Some (sel - 1),
                   focused_index := sel - 1\<rparr>))
          else Inr w
      | None \<Rightarrow> Inr (w\<lparr>focused_index := max 0 (focused_index w - 1)\<rparr>))"
| "apply_cmd MoveDown w =
     (case selected_index w of
        Some sel \<Rightarrow>
          if sel < int (length (mp3_files w)) - 1 then
            (case swap_items (mp3_files w) sel (sel + 1) of
               Inl e \<Rightarrow> Inl e
             | Inr fs \<Rightarrow>
                 Inr (w\<lparr>mp3_files := fs, selected_index := Some (sel + 1),
                   focused_index := sel + 1\<rparr>))
          else Inr w
      | None \<Rightarrow>
          Inr (w\<lparr>focused_index :=
            min (int (length (mp3_files w)) - 1) (focused_index w + 1)\<rparr>))"
| "apply_cmd TogglePick w =
     (case selected_index w of
        None \<Rightarrow> Inr (w\<lparr>selected_index := Some (focused_index w)\<rparr>)
      | Some sel \<Rightarrow> Inr (w\<lparr>selected_index := None\<rparr>))"
| "apply_cmd Combine w = Inr w"
| "apply_cmd Quit w = Inr w"
| "apply_cmd Ignore w = Inr w"

text \<open>A sequence of keys, applied one after the other; an exception ends it.\<close>

fun apply_cmds :: "command list \<Rightarrow> world \<Rightarrow> exn + world" where
  "apply_cmds [] w = Inr w"
| "apply_cmds (c # cs) w =
     (case apply_cmd c w of Inl e \<Rightarrow> Inl e | Inr w' \<Rightarrow> apply_cmds cs w')"

text \<open>The state at line 143, before the terminal is touched.\<close>

definition start :: "string list \<Rightarrow> event list \<Rightarrow> world" where
  "start files keys =
     \<lparr>mp3_files = files, focused_index = 0, selected_index = None, char = None,
      stdin = keys, raw_mode = False, restores = 0, processing = [], written = None,
      messages = []\<rparr>"

section \<open>Combining (lines 219-264)\<close>

text \<open>
  \<open>read_mp3_file\<close> is a parameter: for a file name it gives the length of the decoded
  audio in milliseconds, or the exception the audio library raises. The handler at
  line 247 catches \<open>CouldntDecodeError\<close>, \<open>IOError\<close> and \<open>OSError\<close>.
\<close>

fun caught :: "exn \<Rightarrow> bool" where
  "caught CouldntDecodeError = True"
| "caught OSError = True"
| "caught _ = False"

text \<open>
  The \<open>for\<close> loop of lines 229-249 over the files from position \<open>i\<close> on; \<open>n\<close> is
  \<open>len(mp3_files)\<close>. The result is the exception that left the loop, if any, the
  combined audio and the \<open>Processing\<close> lines printed.
\<close>

fun combine_loop ::
  "(string \<Rightarrow> exn + nat) \<Rightarrow> nat \<Rightarrow> nat \<Rightarrow> string list \<Rightarrow> audio \<Rightarrow> string list
     \<Rightarrow> exn option \<times> audio \<times> string list" where
  "combine_loop read_mp3_file n i [] combined_audio printed = (None, combined_audio, printed)"
| "combine_loop read_mp3_file n i (filename # rest) combined_audio printed =
     (let printed1 = printed @ [filename] in
      case read_mp3_file filename of
        Inr ms \<Rightarrow>
          let a1 = combined_audio @ [Clip filename ms];
              a2 = (if int i < int n - 1 then a1 @ [Silence 3000] else a1)
          in combine_loop read_mp3_file n (Suc i) rest a2 printed1
      | Inl e \<Rightarrow>
          if caught e then combine_loop read_mp3_file n (Suc i) rest combined_audio printed1
          else (Some e, combined_audio, printed1))"

text \<open>
  The body of \<open>if char == 'c'\<close>. \<open>export\<close> is a parameter: \<open>None\<close> when the file is
  written, otherwise the exception raised; \<open>IOError\<close> is caught at line 259 and turned
  into \<open>sys.exit(1)\<close>.
\<close>

definition combine_and_export ::
  "(string \<Rightarrow> exn + nat) \<Rightarrow> (audio \<Rightarrow> exn option) \<Rightarrow> world \<Rightarrow> exn option \<times> world" where
  "combine_and_export read_mp3_file export w =
     (case combine_loop read_mp3_file (length (mp3_files w)) 0 (mp3_files w) [] [] of
        (Some e, combined_audio, printed) \<Rightarrow> (Some e, w\<lparr>processing := printed\<rparr>)
      | (None, combined_audio, printed) \<Rightarrow>
          let w1 = w\<lparr>processing := printed\<rparr> in
          if audio_len combined_audio > 0 then
            (case export combined_audio of
               None \<Rightarrow> (None, w1\<lparr>written := Some combined_audio\<rparr>)
             | Some e \<Rightarrow>
                 if e = OSError
                 then (Some (SystemExit 1), w1\<lparr>messages := messages w1 @ [CouldNotWrite]\<rparr>)
                 else (Some e, w1))
          else (Some (SystemExit 1), w1\<lparr>messages := messages w1 @ [NoValidFiles]\<rparr>))"

section \<open>The session: \<open>try\<close> and \<open>finally\<close> (lines 145-271)\<close>

definition try_block ::
  "(string \<Rightarrow> exn + nat) \<Rightarrow> (audio \<Rightarrow> exn option) \<Rightarrow> world \<Rightarrow> (exn option \<times> world) option" where
  "try_block read_mp3_file export w =
     (case interactive_loop (w\<lparr>raw_mode := True\<rparr>) of
        None \<Rightarrow> None
      | Some (Some e, w') \<Rightarrow> Some (Some e, w')
      | Some (None, w') \<Rightarrow>
          if char w' = Some ''c'' then Some (combine_and_export read_mp3_file export w')
          else Some (None, w'))"

text \<open>
  The \<open>finally\<close> clause restores the terminal and then reads \<open>char\<close>, which raises
  \<open>NameError\<close> when the \<open>try\<close> block was left before the first key was read.
\<close>

definition finally_block :: "exn option \<times> world \<Rightarrow> exn option \<times> world" where
  "finally_block r =
     (case r of (pending, w) \<Rightarrow>
        let w1 = w\<lparr>raw_mode := False, restores := Suc (restores w)\<rparr> in
        (case char w1 of
           None \<Rightarrow> (Some NameError, w1)
         | Some c \<Rightarrow> (pending, w1)))"

definition session ::
  "(string \<Rightarrow> exn + nat) \<Rightarrow> (audio \<Rightarrow> exn option) \<Rightarrow> string list \<Rightarrow> event list
     \<Rightarrow> (exn option \<times> world) option" where
  "session read_mp3_file export files keys =
     map_option finally_block (try_block read_mp3_file export (start files keys))"

text \<open>
  The script from line 122 on. The input folder is missing, is not a directory, or is a
  directory with the given entries.
\<close>

datatype folder = Missing | NotDir | Dir "string list"

definition main ::
  "(string \<Rightarrow> exn + nat) \<Rightarrow> (audio \<Rightarrow> exn option) \<Rightarrow> folder \<Rightarrow> event list
     \<Rightarrow> (exn option \<times> world) option" where
  "main read_mp3_file export input_folder keys =
     (case input_folder of
        Missing \<Rightarrow> Some (Some (SystemExit 1), (start [] keys)\<lparr>messages := [FolderNotFound]\<rparr>)
      | NotDir \<Rightarrow> Some (Some (SystemExit 1), (start [] keys)\<lparr>messages := [NotADirectory]\<rparr>)
      | Dir all_items \<Rightarrow>
          let mp3_files = list_mp3_files all_items in
          if mp3_files = []
          then Some (Some (SystemExit 1), (start [] keys)\<lparr>messages := [NoMp3Found]\<rparr>)
          else session read_mp3_file export mp3_files keys)"

text \<open>The exit status of the process for the exception that ends it.\<close>

fun exit_status :: "exn option \<Rightarrow> nat" where
  "exit_status None = 0"
| "exit_status (Some (SystemExit n)) = n"
| "exit_status (Some KeyboardInterrupt) = 130"
| "exit_status (Some e) = 1"

section \<open>Notions used in the statements\<close>

text \<open>
  The invariant of the editor: the focus stays inside the list (for the empty list, which the script never edits, it
  stays in \<open>{-1, 0}\<close>), and a picked item is the focused one.
\<close>

definition editor_ok :: "world \<Rightarrow> bool" where
  "editor_ok w =
     (min 0 (int (length (mp3_files w)) - 1) \<le> focused_index w \<and>
      focused_index w \<le> max 0 (int (length (mp3_files w)) - 1) \<and>
      (case selected_index w of None \<Rightarrow> True | Some sel \<Rightarrow> sel = focused_index w))"

text \<open>The value of \<open>char\<close> after the first read of an iteration that raised nothing.\<close>

definition first_char :: "event list \<Rightarrow> string" where
  "first_char s = (case s of Ch c # rest \<Rightarrow> [c] | _ \<Rightarrow> [])"

text \<open>
  The keys after which the loop is left: a \<open>c\<close> or \<open>q\<close> read as the first character
  of a key, or a read that raises. Characters swallowed by an escape sequence do not
  count.
\<close>

fun leaves_loop :: "event list \<Rightarrow> bool" where
  "leaves_loop [] = False"
| "leaves_loop (Raises e # r) = True"
| "leaves_loop (Ch c # r) =
     (if c = CHR 0x1B then
        (case r of
           [] \<Rightarrow> False
         | Raises e # r' \<Rightarrow> True
         | Ch d # r' \<Rightarrow>
             if d = CHR ''['' then
               (case r' of
                  [] \<Rightarrow> False
                | Raises e # r'' \<Rightarrow> True
                | Ch x # r'' \<Rightarrow> leaves_loop r'')
             else leaves_loop r')
      else if c = CHR ''c'' \<or> c = CHR ''q'' then True
      else leaves_loop r)"

text \<open>The number of characters one key takes from the input.\<close>

definition consumed :: "event list \<Rightarrow> nat" where
  "consumed s = (case next_key s of Inl e \<Rightarrow> 0 | Inr (cmd, rest) \<Rightarrow> length s - length rest)"

text \<open>
  Counting what the combined audio holds: the decoded files, and the gaps of three
  seconds of silence that the loop inserts.
\<close>

fun is_clip :: "piece \<Rightarrow> bool" where
  "is_clip (Clip name ms) = True"
| "is_clip (Silence ms) = False"

definition count_clips :: "audio \<Rightarrow> nat" where
  "count_clips a = length (filter is_clip a)"

definition count_gaps :: "audio \<Rightarrow> nat" where
  "count_gaps a = length (filter (\<lambda>p. p = Silence 3000) a)"

text \<open>
  A file decodes when \<open>read_mp3_file\<close> returns audio; it is skipped when
  \<open>read_mp3_file\<close> raises an exception that the handler at line 247 catches.
\<close>

definition decodes :: "(string \<Rightarrow> exn + nat) \<Rightarrow> string \<Rightarrow> bool" where
  "decodes read_mp3_file f = (case read_mp3_file f of Inr ms \<Rightarrow> True | Inl e \<Rightarrow> False)"

definition skipped :: "(string \<Rightarrow> exn + nat) \<Rightarrow> string \<Rightarrow> bool" where
  "skipped read_mp3_file f = (case read_mp3_file f of Inr ms \<Rightarrow> False | Inl e \<Rightarrow> caught e)"

section \<open>Swapping neighbours\<close>

lemma py_index_in_range: "0 \<le> i \<Longrightarrow> i < int (length xs) \<Longrightarrow> py_index xs i = Some (nat i)"
  by (simp add: py_index_def)

lemma py_index_less: "py_index xs i = Some k \<Longrightarrow> k < length xs"
  by (auto simp: py_index_def Let_def split: if_splits)

lemma swap_items_in_range:
  assumes "0 \<le> i" "i < int (length xs)" "0 \<le> j" "j < int (length xs)"
  shows "swap_items xs i j = Inr ((xs[nat i := xs ! nat j])[nat j := xs ! nat i])"
  using assms by (simp add: swap_items_def py_index_in_range)

lemma swap_items_mset:
  assumes "swap_items xs i j = Inr ys"
  shows "mset ys = mset xs"
proof -
  from assms obtain i' j' where ij: "py_index xs i = Some i'" "py_index xs j = Some j'"
    and ys: "ys = (xs[i' := xs ! j'])[j' := xs ! i']"
    by (auto simp: swap_items_def split: option.splits)
  from ij have "j' < length xs" "i' < length xs" by (auto dest: py_index_less)
  then show ?thesis unfolding ys by (rule mset_swap)
qed

lemma swap_items_length: "swap_items xs i j = Inr ys \<Longrightarrow> length ys = length xs"
  by (auto simp: swap_items_def split: option.splits)

section \<open>Editing keeps the files\<close>

lemma apply_cmd_ok:
  assumes "editor_ok w"
  shows "\<exists>w'. apply_cmd c w = Inr w' \<and> editor_ok w' \<and> mset (mp3_files w') = mset (mp3_files w)"
proof (cases c)
  case MoveUp
  show ?thesis
  proof (cases "selected_index w")
    case None
    with MoveUp assms show ?thesis by (auto simp: editor_ok_def)
  next
    case (Some sel)
    show ?thesis
    proof (cases "sel > 0")
      case False
      with MoveUp Some assms show ?thesis by simp
    next
      case True
      with Some assms have r: "0 \<le> sel" "sel < int (length (mp3_files w))" "0 \<le> sel - 1"
          "sel - 1 < int (length (mp3_files w))"
        by (auto simp: editor_ok_def)
      from swap_items_in_range[OF r] obtain fs where
        fs: "swap_items (mp3_files w) sel (sel - 1) = Inr fs" by blast
      from fs have "mset fs = mset (mp3_files w)" "length fs = length (mp3_files w)"
        by (auto dest: swap_items_mset swap_items_length)
      with MoveUp Some True fs r show ?thesis by (simp add: editor_ok_def)
    qed
  qed
next
  case MoveDown
  show ?thesis
  proof (cases "selected_index w")
    case None
    with MoveDown assms show ?thesis by (auto simp: editor_ok_def)
  next
    case (Some sel)
    show ?thesis
    proof (cases "sel < int (length (mp3_files w)) - 1")
      case False
      with MoveDown Some assms show ?thesis by simp
    next
      case True
      with Some assms have r: "0 \<le> sel" "sel < int (length (mp3_files w))" "0 \<le> sel + 1"
          "sel + 1 < int (length (mp3_files w))"
        by (auto simp: editor_ok_def)
      from swap_items_in_range[OF r] obtain fs where
        fs: "swap_items (mp3_files w) sel (sel + 1) = Inr fs" by blast
      from fs have "mset fs = mset (mp3_files w)" "length fs = length (mp3_files w)"
        by (auto dest: swap_items_mset swap_items_length)
      with MoveDown Some True fs r show ?thesis by (simp add: editor_ok_def)
    qed
  qed
next
  case TogglePick
  with assms show ?thesis by (auto simp: editor_ok_def split: option.splits)
qed (use assms in simp_all)

lemma apply_cmds_ok:
  "editor_ok w \<Longrightarrow>
   \<exists>w'. apply_cmds cs w = Inr w' \<and> editor_ok w' \<and> mset (mp3_files w') = mset (mp3_files w)"
proof (induction cs arbitrary: w)
  case Nil
  then show ?case by simp
next
  case (Cons c cs)
  from apply_cmd_ok[OF Cons.prems, of c] obtain w1 where
    w1: "apply_cmd c w = Inr w1" "editor_ok w1" "mset (mp3_files w1) = mset (mp3_files w)"
    by blast
  from Cons.IH[OF w1(2)] w1 show ?case by auto
qed

lemma editor_ok_start: "editor_ok (start files keys)"
  by (simp add: editor_ok_def start_def)

section \<open>The loop body, key by key\<close>

lemma key_shape_cases:
  obtains (eof) "s = []"
  | (raise1) e r where "s = Raises e # r"
  | (plain) c r where "s = Ch c # r" "c \<noteq> CHR 0x1B"
  | (esc_eof) "s = [Ch (CHR 0x1B)]"
  | (raise2) e r where "s = Ch (CHR 0x1B) # Raises e # r"
  | (esc_other) d r where "s = Ch (CHR 0x1B) # Ch d # r" "d \<noteq> CHR ''[''"
  | (csi_eof) "s = [Ch (CHR 0x1B), Ch CHR ''['']"
  | (raise3) e r where "s = Ch (CHR 0x1B) # Ch CHR ''['' # Raises e # r"
  | (csi) x r where "s = Ch (CHR 0x1B) # Ch CHR ''['' # Ch x # r"
proof (cases s rule: read1.cases)
  case (2 c r)
  show ?thesis
  proof (cases "c = CHR 0x1B")
    case False
    with 2 plain show ?thesis by blast
  next
    case True
    show ?thesis
    proof (cases r rule: read1.cases)
      case 1
      with 2 True esc_eof show ?thesis by blast
    next
      case (2 d r')
      note d = this
      show ?thesis
      proof (cases "d = CHR ''[''")
        case False
        with d \<open>s = Ch c # r\<close> True esc_other show ?thesis by blast
      next
        case dT: True
        show ?thesis
        proof (cases r' rule: read1.cases)
          case 1
          with d dT \<open>s = Ch c # r\<close> True csi_eof show ?thesis by blast
        next
          case (2 x r'')
          with d dT \<open>s = Ch c # r\<close> True csi show ?thesis by blast
        next
          case (3 e r'')
          with d dT \<open>s = Ch c # r\<close> True raise3 show ?thesis by blast
        qed
      qed
    next
      case (3 e r')
      with \<open>s = Ch c # r\<close> True raise2 show ?thesis by blast
    qed
  qed
qed (use eof raise1 in blast)+

lemma next_key_eof: "next_key [] = Inr (Ignore, [])"
  by (simp add: next_key_def ESC_def CR_def LF_def)

lemma next_key_raise1: "next_key (Raises e # r) = Inl e"
  by (simp add: next_key_def)

lemma next_key_plain:
  "c \<noteq> CHR 0x1B \<Longrightarrow> next_key (Ch c # r) =
     Inr (if c = CHR 0x0D \<or> c = CHR 0x0A then TogglePick
          else if c = CHR ''c'' then Combine
          else if c = CHR ''q'' then Quit else Ignore, r)"
  by (simp add: next_key_def ESC_def CR_def LF_def)

lemma next_key_esc_eof: "next_key [Ch (CHR 0x1B)] = Inr (Ignore, [])"
  by (simp add: next_key_def ESC_def)

lemma next_key_raise2: "next_key (Ch (CHR 0x1B) # Raises e # r) = Inl e"
  by (simp add: next_key_def ESC_def)

lemma next_key_esc_other:
  "d \<noteq> CHR ''['' \<Longrightarrow> next_key (Ch (CHR 0x1B) # Ch d # r) = Inr (Ignore, r)"
  by (simp add: next_key_def ESC_def)

lemma next_key_csi_eof: "next_key [Ch (CHR 0x1B), Ch CHR ''['']  = Inr (Ignore, [])"
  by (simp add: next_key_def ESC_def)

lemma next_key_raise3: "next_key (Ch (CHR 0x1B) # Ch CHR ''['' # Raises e # r) = Inl e"
  by (simp add: next_key_def ESC_def)

lemma next_key_csi:
  "next_key (Ch (CHR 0x1B) # Ch CHR ''['' # Ch x # r) =
     Inr (if x = CHR ''A'' then MoveUp else if x = CHR ''B'' then MoveDown else Ignore, r)"
  by (simp add: next_key_def ESC_def)

lemmas next_key_shape = next_key_eof next_key_raise1 next_key_plain next_key_esc_eof
  next_key_raise2 next_key_esc_other next_key_csi_eof next_key_raise3 next_key_csi

lemma loop_body_decode:
  assumes "next_key (stdin w) = Inr (cmd, rest)"
  shows "loop_body w =
    (let w1 = w\<lparr>char := Some (first_char (stdin w)), stdin := rest\<rparr> in
     case cmd of
       Combine \<Rightarrow> Break (w1\<lparr>raw_mode := False, restores := Suc (restores w1)\<rparr>)
     | Quit \<Rightarrow> Break w1
     | _ \<Rightarrow> (case apply_cmd cmd w1 of Inr w2 \<Rightarrow> Continue w2 | Inl e \<Rightarrow> Raise e w1))"
proof (cases "stdin w" rule: key_shape_cases)
  case eof
  with assms show ?thesis
    by (simp add: next_key_shape loop_body_def first_char_def ESC_def CR_def LF_def)
next
  case (raise1 e r)
  with assms show ?thesis by (simp add: next_key_shape)
next
  case (plain c r)
  with assms show ?thesis
    by (auto simp: next_key_shape loop_body_def first_char_def ESC_def CR_def LF_def Let_def
        split: if_splits option.splits)
next
  case esc_eof
  with assms show ?thesis
    by (simp add: next_key_shape loop_body_def first_char_def ESC_def)
next
  case (raise2 e r)
  with assms show ?thesis by (simp add: next_key_shape)
next
  case (esc_other d r)
  with assms show ?thesis
    by (simp add: next_key_shape loop_body_def first_char_def ESC_def)
next
  case csi_eof
  with assms show ?thesis
    by (simp add: next_key_shape loop_body_def first_char_def ESC_def)
next
  case (raise3 e r)
  with assms show ?thesis by (simp add: next_key_shape)
next
  case (csi x r)
  with assms show ?thesis
    by (auto simp: next_key_shape loop_body_def first_char_def ESC_def Let_def
        split: if_splits option.splits sum.splits)
qed

lemma loop_body_raise:
  assumes "next_key (stdin w) = Inl e"
  shows "\<exists>w'. loop_body w = Raise e w' \<and> mp3_files w' = mp3_files w \<and>
     focused_index w' = focused_index w \<and> selected_index w' = selected_index w \<and>
     (char w' = char w \<or> char w' = Some ESC) \<and> raw_mode w' = raw_mode w \<and>
     restores w' = restores w \<and> processing w' = processing w \<and> written w' = written w \<and>
     messages w' = messages w"
proof (cases "stdin w" rule: key_shape_cases)
  case (raise1 e' r)
  with assms show ?thesis by (simp add: next_key_shape loop_body_def)
next
  case (raise2 e' r)
  with assms show ?thesis by (simp add: next_key_shape loop_body_def ESC_def)
next
  case (raise3 e' r)
  with assms show ?thesis by (simp add: next_key_shape loop_body_def ESC_def)
qed (use assms in \<open>simp_all add: next_key_shape\<close>)

lemma apply_cmd_frame:
  assumes "apply_cmd c w = Inr w'"
  shows "char w' = char w \<and> stdin w' = stdin w \<and> raw_mode w' = raw_mode w \<and>
    restores w' = restores w \<and> processing w' = processing w \<and> written w' = written w \<and>
    messages w' = messages w"
  using assms by (cases c) (auto split: option.splits if_splits sum.splits)

lemma first_char_combine:
  assumes "next_key s = Inr (cmd, rest)"
  shows "(first_char s = ''c'') = (cmd = Combine)"
  using assms
  by (cases s rule: key_shape_cases)
    (auto simp: next_key_shape first_char_def split: if_splits)

lemma first_char_quit:
  assumes "next_key s = Inr (cmd, rest)"
  shows "(first_char s = ''q'') = (cmd = Quit)"
  using assms
  by (cases s rule: key_shape_cases)
    (auto simp: next_key_shape first_char_def split: if_splits)

lemma editor_ok_cong:
  "mp3_files w' = mp3_files w \<Longrightarrow> focused_index w' = focused_index w \<Longrightarrow>
   selected_index w' = selected_index w \<Longrightarrow> editor_ok w' = editor_ok w"
  by (simp add: editor_ok_def split: option.splits)

lemma loop_body_Continue:
  assumes "loop_body w = Continue w'" "editor_ok w"
  shows "editor_ok w' \<and> mset (mp3_files w') = mset (mp3_files w) \<and>
    raw_mode w' = raw_mode w \<and> restores w' = restores w \<and> processing w' = processing w \<and>
    written w' = written w \<and> messages w' = messages w \<and> char w' \<noteq> Some ''c'' \<and>
    (\<exists>cmd. next_key (stdin w) = Inr (cmd, stdin w') \<and> cmd \<noteq> Combine \<and> cmd \<noteq> Quit)"
proof (cases "next_key (stdin w)")
  case (Inl e)
  from loop_body_raise[OF Inl] assms show ?thesis by auto
next
  case (Inr p)
  obtain cmd rest where p: "p = (cmd, rest)" by (cases p)
  define w1 where "w1 = w\<lparr>char := Some (first_char (stdin w)), stdin := rest\<rparr>"
  have nk: "next_key (stdin w) = Inr (cmd, rest)" using Inr p by simp
  have ok1: "editor_ok w1" using assms(2) by (simp add: w1_def editor_ok_def split: option.splits)
  from apply_cmd_ok[OF ok1, of cmd] obtain w2 where
    w2: "apply_cmd cmd w1 = Inr w2" "editor_ok w2" "mset (mp3_files w2) = mset (mp3_files w1)"
    by blast
  have cmd: "cmd \<noteq> Combine" "cmd \<noteq> Quit"
    using assms(1) loop_body_decode[OF nk] by (auto simp: Let_def)
  then have "loop_body w = Continue w2"
    using loop_body_decode[OF nk] w2(1) by (cases cmd) (simp_all add: Let_def w1_def)
  with assms(1) have eq: "w' = w2" by simp
  have "first_char (stdin w) \<noteq> ''c''" using first_char_combine[OF nk] cmd by simp
  with apply_cmd_frame[OF w2(1)] w2 nk cmd show ?thesis
    unfolding eq by (simp add: w1_def)
qed

lemma loop_body_Break:
  assumes "loop_body w = Break w'"
  shows "mp3_files w' = mp3_files w \<and> focused_index w' = focused_index w \<and>
    selected_index w' = selected_index w \<and> processing w' = processing w \<and>
    written w' = written w \<and> messages w' = messages w \<and>
    ((char w' = Some ''c'' \<and> restores w' = Suc (restores w) \<and> \<not> raw_mode w') \<or>
     (char w' = Some ''q'' \<and> restores w' = restores w \<and> raw_mode w' = raw_mode w))"
proof (cases "next_key (stdin w)")
  case (Inl e)
  from loop_body_raise[OF Inl] assms show ?thesis by auto
next
  case (Inr p)
  obtain cmd rest where p: "p = (cmd, rest)" by (cases p)
  have nk: "next_key (stdin w) = Inr (cmd, rest)" using Inr p by simp
  from assms loop_body_decode[OF nk] have cmd: "cmd = Combine \<or> cmd = Quit"
    by (cases cmd) (auto simp: Let_def split: sum.splits)
  from cmd show ?thesis
  proof
    assume c: "cmd = Combine"
    with first_char_combine[OF nk] have "first_char (stdin w) = ''c''" by simp
    with assms loop_body_decode[OF nk] c show ?thesis by (auto simp: Let_def)
  next
    assume c: "cmd = Quit"
    with first_char_quit[OF nk] have "first_char (stdin w) = ''q''" by simp
    with assms loop_body_decode[OF nk] c show ?thesis by (auto simp: Let_def)
  qed
qed

lemma loop_body_Raise:
  assumes "loop_body w = Raise e w'" "editor_ok w"
  shows "mp3_files w' = mp3_files w \<and> focused_index w' = focused_index w \<and>
    selected_index w' = selected_index w \<and> processing w' = processing w \<and>
    written w' = written w \<and> messages w' = messages w \<and> restores w' = restores w \<and>
    raw_mode w' = raw_mode w \<and> (char w' = char w \<or> char w' = Some ESC) \<and>
    next_key (stdin w) = Inl e"
proof (cases "next_key (stdin w)")
  case (Inl e')
  from loop_body_raise[OF Inl] assms(1) show ?thesis using Inl by auto
next
  case (Inr p)
  obtain cmd rest where p: "p = (cmd, rest)" by (cases p)
  define w1 where "w1 = w\<lparr>char := Some (first_char (stdin w)), stdin := rest\<rparr>"
  have nk: "next_key (stdin w) = Inr (cmd, rest)" using Inr p by simp
  have ok1: "editor_ok w1" using assms(2) by (simp add: w1_def editor_ok_def split: option.splits)
  from apply_cmd_ok[OF ok1, of cmd] obtain w2 where
    w2: "apply_cmd cmd w1 = Inr w2" by blast
  with assms(1) loop_body_decode[OF nk] have False
    by (cases cmd) (simp_all add: Let_def w1_def)
  then show ?thesis ..
qed

lemma interactive_loop_result:
  assumes "interactive_loop w = Some (r, w')" "editor_ok w" "char w \<noteq> Some ''c''"
  shows "editor_ok w' \<and> mset (mp3_files w') = mset (mp3_files w) \<and>
    processing w' = processing w \<and> written w' = written w \<and> messages w' = messages w \<and>
    (if char w' = Some ''c''
     then r = None \<and> restores w' = Suc (restores w) \<and> \<not> raw_mode w'
     else restores w' = restores w \<and> raw_mode w' = raw_mode w)"
proof -
  define Q where "Q = (\<lambda>w (y :: exn option \<times> world).
    editor_ok w \<longrightarrow> char w \<noteq> Some ''c'' \<longrightarrow>
    editor_ok (snd y) \<and> mset (mp3_files (snd y)) = mset (mp3_files w) \<and>
    processing (snd y) = processing w \<and> written (snd y) = written w \<and>
    messages (snd y) = messages w \<and>
    (if char (snd y) = Some ''c''
     then fst y = None \<and> restores (snd y) = Suc (restores w) \<and> \<not> raw_mode (snd y)
     else restores (snd y) = restores w \<and> raw_mode (snd y) = raw_mode w))"
  have "Q w (r, w')"
  proof (rule interactive_loop.raw_induct[OF _ assms(1)])
    fix f w y
    assume IH: "\<And>x y. f x = Some y \<Longrightarrow> Q x y"
      and eq: "(case loop_body w of Continue w' \<Rightarrow> f w' | Break w' \<Rightarrow> Some (None, w')
                | Raise e w' \<Rightarrow> Some (Some e, w')) = Some y"
    show "Q w y"
    proof (cases "loop_body w")
      case (Continue w1)
      with eq have "f w1 = Some y" by simp
      from IH[OF this] have q: "Q w1 y" .
      show ?thesis unfolding Q_def
      proof (intro impI)
        assume ok: "editor_ok w" and "char w \<noteq> Some ''c''"
        from loop_body_Continue[OF Continue ok] q show
          "editor_ok (snd y) \<and> mset (mp3_files (snd y)) = mset (mp3_files w) \<and>
           processing (snd y) = processing w \<and> written (snd y) = written w \<and>
           messages (snd y) = messages w \<and>
           (if char (snd y) = Some ''c''
            then fst y = None \<and> restores (snd y) = Suc (restores w) \<and> \<not> raw_mode (snd y)
            else restores (snd y) = restores w \<and> raw_mode (snd y) = raw_mode w)"
          unfolding Q_def by simp
      qed
    next
      case (Break w1)
      with eq have y: "y = (None, w1)" by simp
      from loop_body_Break[OF Break] have "editor_ok w1 = editor_ok w"
        by (intro editor_ok_cong) simp_all
      with loop_body_Break[OF Break] show ?thesis
        unfolding Q_def y by auto
    next
      case (Raise e w1)
      with eq have y: "y = (Some e, w1)" by simp
      show ?thesis unfolding Q_def
      proof (intro impI)
        assume ok: "editor_ok w" and c: "char w \<noteq> Some ''c''"
        from loop_body_Raise[OF Raise ok] have "editor_ok w1 = editor_ok w"
          by (intro editor_ok_cong) simp_all
        with loop_body_Raise[OF Raise ok] c show
          "editor_ok (snd y) \<and> mset (mp3_files (snd y)) = mset (mp3_files w) \<and>
           processing (snd y) = processing w \<and> written (snd y) = written w \<and>
           messages (snd y) = messages w \<and>
           (if char (snd y) = Some ''c''
            then fst y = None \<and> restores (snd y) = Suc (restores w) \<and> \<not> raw_mode (snd y)
            else restores (snd y) = restores w \<and> raw_mode (snd y) = raw_mode w)"
          using ok unfolding y by (auto simp: ESC_def)
      qed
    qed
  qed
  with assms(2,3) show ?thesis by (auto simp: Q_def split: if_splits)
qed

section \<open>Leaving the loop and restoring the terminal\<close>

lemma leaves_loop_next_key:
  "leaves_loop s =
     (case next_key s of
        Inl e \<Rightarrow> True
      | Inr (cmd, rest) \<Rightarrow> cmd = Combine \<or> cmd = Quit \<or> (s \<noteq> [] \<and> leaves_loop rest))"
  by (cases s rule: key_shape_cases) (auto simp: next_key_shape)

lemma next_key_shorter:
  "next_key s = Inr (cmd, rest) \<Longrightarrow> s \<noteq> [] \<Longrightarrow> length rest < length s"
  by (cases s rule: key_shape_cases) (auto simp: next_key_shape)

lemma interactive_loop_returns:
  "leaves_loop (stdin w) \<Longrightarrow> \<exists>y. interactive_loop w = Some y"
proof (induction "length (stdin w)" arbitrary: w rule: less_induct)
  case less
  show ?case
  proof (cases "next_key (stdin w)")
    case (Inl e)
    from loop_body_raise[OF Inl] obtain w' where "loop_body w = Raise e w'" by blast
    then show ?thesis by (subst interactive_loop.simps) simp
  next
    case (Inr p)
    obtain cmd rest where p: "p = (cmd, rest)" by (cases p)
    define w1 where "w1 = w\<lparr>char := Some (first_char (stdin w)), stdin := rest\<rparr>"
    have nk: "next_key (stdin w) = Inr (cmd, rest)" using Inr p by simp
    note dec = loop_body_decode[OF nk, unfolded Let_def, folded w1_def]
    show ?thesis
    proof (cases "cmd = Combine \<or> cmd = Quit")
      case True
      with dec obtain w' where "loop_body w = Break w'" by auto
      then show ?thesis by (subst interactive_loop.simps) simp
    next
      case False
      with less.prems nk have ne: "stdin w \<noteq> []" and ll: "leaves_loop rest"
        by (auto simp: leaves_loop_next_key[of "stdin w"])
      show ?thesis
      proof (cases "apply_cmd cmd w1")
        case (Inl e)
        with dec False have "loop_body w = Raise e w1" by (cases cmd) simp_all
        then show ?thesis by (subst interactive_loop.simps) simp
      next
        case (Inr w2)
        with dec False have lb: "loop_body w = Continue w2" by (cases cmd) simp_all
        from apply_cmd_frame[OF Inr] have s2: "stdin w2 = rest" by (simp add: w1_def)
        from next_key_shorter[OF nk ne] s2 have "length (stdin w2) < length (stdin w)" by simp
        from less.hyps[OF this] ll s2 obtain y where "interactive_loop w2 = Some y" by auto
        with lb show ?thesis by (subst interactive_loop.simps) simp
      qed
    qed
  qed
qed

lemma interactive_loop_returns_only_if:
  assumes "interactive_loop w = Some y" "editor_ok w"
  shows "leaves_loop (stdin w)"
proof -
  have "editor_ok w \<longrightarrow> leaves_loop (stdin w)"
  proof (rule interactive_loop.raw_induct[OF _ assms(1)])
    fix f w y
    assume IH: "\<And>x y. f x = Some y \<Longrightarrow> editor_ok x \<longrightarrow> leaves_loop (stdin x)"
      and eq: "(case loop_body w of Continue w' \<Rightarrow> f w' | Break w' \<Rightarrow> Some (None, w')
                | Raise e w' \<Rightarrow> Some (Some e, w')) = Some (y :: exn option \<times> world)"
    show "editor_ok w \<longrightarrow> leaves_loop (stdin w)"
    proof
      assume ok: "editor_ok w"
      show "leaves_loop (stdin w)"
      proof (cases "loop_body w")
        case (Continue w1)
        with eq have "f w1 = Some y" by simp
        from IH[OF this] loop_body_Continue[OF Continue ok]
        obtain cmd where ll: "leaves_loop (stdin w1)"
          and nk: "next_key (stdin w) = Inr (cmd, stdin w1)" by auto
        have "stdin w \<noteq> []"
        proof
          assume e: "stdin w = []"
          with nk have "stdin w1 = []" by (simp add: next_key_shape)
          with ll show False by simp
        qed
        with ll nk show ?thesis by (simp add: leaves_loop_next_key[of "stdin w"])
      next
        case (Break w1)
        show ?thesis
        proof (cases "next_key (stdin w)")
          case (Inl e)
          then show ?thesis by (simp add: leaves_loop_next_key[of "stdin w"])
        next
          case (Inr p)
          obtain cmd rest where p: "p = (cmd, rest)" by (cases p)
          have nk: "next_key (stdin w) = Inr (cmd, rest)" using Inr p by simp
          from Break loop_body_decode[OF nk] have "cmd = Combine \<or> cmd = Quit"
            by (cases cmd) (auto simp: Let_def split: sum.splits)
          with nk show ?thesis by (auto simp: leaves_loop_next_key[of "stdin w"])
        qed
      next
        case (Raise e w1)
        from loop_body_Raise[OF Raise ok] show ?thesis
          by (simp add: leaves_loop_next_key[of "stdin w"])
      qed
    qed
  qed
  with assms(2) show ?thesis by simp
qed

lemma combine_and_export_frame:
  assumes "combine_and_export rd ex w = (e, w')"
  shows "char w' = char w \<and> raw_mode w' = raw_mode w \<and> restores w' = restores w \<and>
    mp3_files w' = mp3_files w"
  using assms
  by (auto simp: combine_and_export_def Let_def split: prod.splits option.splits if_splits)

lemma editor_ok_raw_start: "editor_ok ((start files keys)\<lparr>raw_mode := True\<rparr>)"
  by (simp add: editor_ok_def start_def)

lemma session_returns_iff:
  "(\<exists>y. session rd ex files keys = Some y) = leaves_loop keys"
proof
  assume "\<exists>y. session rd ex files keys = Some y"
  then obtain y where "interactive_loop ((start files keys)\<lparr>raw_mode := True\<rparr>) = Some y"
    by (auto simp: session_def try_block_def split: option.splits)
  from interactive_loop_returns_only_if[OF this editor_ok_raw_start]
  show "leaves_loop keys" by (simp add: start_def)
next
  assume "leaves_loop keys"
  then have "leaves_loop (stdin ((start files keys)\<lparr>raw_mode := True\<rparr>))"
    by (simp add: start_def)
  from interactive_loop_returns[OF this] obtain r w1 where
    "interactive_loop ((start files keys)\<lparr>raw_mode := True\<rparr>) = Some (r, w1)" by force
  then have "\<exists>z. try_block rd ex (start files keys) = Some z"
    by (cases r) (simp_all add: try_block_def)
  then show "\<exists>y. session rd ex files keys = Some y"
    by (auto simp: session_def)
qed

lemma session_restores:
  assumes "session rd ex files keys = Some (e, w)"
  shows "\<not> raw_mode w \<and> restores w = (if char w = Some ''c'' then 2 else 1)"
proof -
  let ?w0 = "(start files keys)\<lparr>raw_mode := True\<rparr>"
  from assms obtain r w1 where il: "interactive_loop ?w0 = Some (r, w1)"
    by (auto simp: session_def try_block_def split: option.splits)
  have c0: "char ?w0 \<noteq> Some ''c''" by (simp add: start_def)
  note res = interactive_loop_result[OF il editor_ok_raw_start c0]
  have r0: "restores ?w0 = 0" by (simp add: start_def)
  obtain e2 w2 where tb: "try_block rd ex (start files keys) = Some (e2, w2)"
    and fin: "finally_block (e2, w2) = (e, w)"
    using assms by (auto simp: session_def)
  have w2: "char w2 = char w1 \<and> restores w2 = restores w1"
    using tb il combine_and_export_frame[of rd ex w1]
    by (auto simp: try_block_def split: option.splits if_splits)
  from fin have w: "\<not> raw_mode w \<and> restores w = Suc (restores w2) \<and> char w = char w2"
    by (auto simp: finally_block_def Let_def split: option.splits)
  from res r0 w2 w show ?thesis by (auto split: if_splits)
qed

text \<open>
  C2, as amended. Whenever the loop is left (by \<open>q\<close>, by \<open>c\<close>, or by an exception out
  of a read), the session ends with the terminal out of raw mode. The saved settings are
  restored exactly once when the loop was left by \<open>q\<close> or by an exception, and exactly
  twice when it was left by \<open>c\<close> (then \<open>char\<close> is \<open>c\<close>): once in the \<open>c\<close> branch and
  once in the \<open>finally\<close> clause, whatever the combining does afterwards.
\<close>

theorem terminal_restored_on_every_exit:
  "leaves_loop keys \<Longrightarrow>
   \<exists>e w. session read_mp3_file export files keys = Some (e, w) \<and> \<not> raw_mode w \<and>
     restores w = (if char w = Some ''c'' then 2 else 1)"
proof -
  assume "leaves_loop keys"
  then obtain y where "session read_mp3_file export files keys = Some y"
    using session_returns_iff[of read_mp3_file export files keys] by blast
  then obtain e w where s: "session read_mp3_file export files keys = Some (e, w)"
    by (cases y) simp
  from session_restores[OF s] s show ?thesis by blast
qed

theorem terminal_restored_on_every_exit_witness:
  "leaves_loop [Ch (CHR 0x0D), Raises KeyboardInterrupt] \<and>
   (\<exists>e w. session (\<lambda>f. Inr 1000) (\<lambda>a. None) [''a.mp3'', ''b.mp3'']
             [Ch (CHR 0x0D), Raises KeyboardInterrupt] = Some (e, w) \<and>
      \<not> raw_mode w \<and> restores w = (if char w = Some ''c'' then 2 else 1))"
  using terminal_restored_on_every_exit
    [of "[Ch (CHR 0x0D), Raises KeyboardInterrupt]" "\<lambda>f. Inr 1000" "\<lambda>a. None"
      "[''a.mp3'', ''b.mp3'']"]
  by simp

text \<open>
  C2 as stated fails: one file, the key \<open>c\<close>, a decode and an export that succeed. The
  run ends normally and has restored the terminal settings twice.
\<close>

theorem combine_path_restores_twice:
  "session (\<lambda>f. Inr 1000) (\<lambda>a. None) [''a.mp3''] [Ch CHR ''c''] =
     Some (None,
       \<lparr>mp3_files = [''a.mp3''], focused_index = 0, selected_index = None,
        char = Some ''c'', stdin = [], raw_mode = False, restores = 2,
        processing = [''a.mp3''], written = Some [Clip ''a.mp3'' 1000], messages = []\<rparr>)"
  by (simp add: session_def try_block_def start_def interactive_loop.simps loop_body_def
      ESC_def CR_def LF_def combine_and_export_def audio_len_def finally_block_def)

section \<open>Claims on the key decoder and the scenario\<close>

lemma next_key_chars:
  "\<exists>n cmd. n \<le> 3 \<and> next_key (map Ch cs) = Inr (cmd, map Ch (drop n cs)) \<and>
     consumed (map Ch cs) = min n (length cs)"
proof (cases "map Ch cs" rule: key_shape_cases)
  case eof
  then show ?thesis by (auto simp: next_key_shape consumed_def)
next
  case (plain c r)
  then obtain r' where "cs = c # r'" "r = map Ch r'" by auto
  with plain(2) show ?thesis
    by (intro exI[of _ "1::nat"]) (auto simp: next_key_shape consumed_def)
next
  case esc_eof
  then have "cs = [CHR 0x1B]" by auto
  then show ?thesis by (intro exI[of _ "1::nat"]) (auto simp: next_key_shape consumed_def)
next
  case (esc_other d r)
  then obtain r' where "cs = CHR 0x1B # d # r'" "r = map Ch r'" by auto
  with esc_other(2) show ?thesis
    by (intro exI[of _ "2::nat"]) (auto simp: next_key_shape consumed_def)
next
  case csi_eof
  then have "cs = [CHR 0x1B, CHR ''['']" by auto
  then show ?thesis by (intro exI[of _ "2::nat"]) (auto simp: next_key_shape consumed_def)
next
  case (csi x r)
  then obtain r' where "cs = CHR 0x1B # CHR ''['' # x # r'" "r = map Ch r'" by auto
  then show ?thesis
    by (intro exI[of _ "3::nat"]) (auto simp: next_key_shape consumed_def)
qed auto

text \<open>
  C6, as amended. On any sequence of characters the decoder returns a command (it never
  fails) and takes at most three characters: three for \<open>ESC [ X\<close> (up for \<open>A\<close>, down
  for \<open>B\<close>, otherwise ignored), two for \<open>ESC\<close> followed by a character other than
  \<open>[\<close> (both dropped, the key is ignored), one for any other character, and fewer where
  the input ends: \<open>ESC [\<close>, \<open>ESC\<close> and the empty input are ignored and use up what is
  left.
\<close>

theorem next_key_consumption:
  "(\<exists>n cmd. n \<le> 3 \<and> next_key (map Ch cs) = Inr (cmd, map Ch (drop n cs)) \<and>
      consumed (map Ch cs) = min n (length cs)) \<and>
   (next_key (Ch (CHR 0x1B) # Ch CHR ''['' # Ch x # s) =
      Inr (if x = CHR ''A'' then MoveUp else if x = CHR ''B'' then MoveDown else Ignore, s) \<and>
    consumed (Ch (CHR 0x1B) # Ch CHR ''['' # Ch x # s) = 3) \<and>
   (d \<noteq> CHR ''['' \<longrightarrow>
      next_key (Ch (CHR 0x1B) # Ch d # s) = Inr (Ignore, s) \<and>
      consumed (Ch (CHR 0x1B) # Ch d # s) = 2) \<and>
   (c \<noteq> CHR 0x1B \<longrightarrow>
      next_key (Ch c # s) =
        Inr (if c = CHR 0x0D \<or> c = CHR 0x0A then TogglePick
             else if c = CHR ''c'' then Combine
             else if c = CHR ''q'' then Quit else Ignore, s) \<and>
      consumed (Ch c # s) = 1) \<and>
   next_key [Ch (CHR 0x1B), Ch CHR ''['']  = Inr (Ignore, []) \<and>
   next_key [Ch (CHR 0x1B)] = Inr (Ignore, []) \<and>
   next_key [] = Inr (Ignore, [])"
  using next_key_chars[of cs] by (simp add: next_key_shape consumed_def)

theorem next_key_consumption_witness:
  "CHR ''q'' \<noteq> CHR ''['' \<and> CHR ''x'' \<noteq> CHR 0x1B \<and>
   next_key [Ch (CHR 0x1B), Ch CHR ''q'', Ch CHR ''c''] = Inr (Ignore, [Ch CHR ''c'']) \<and>
   consumed [Ch (CHR 0x1B), Ch CHR ''q'', Ch CHR ''c''] = 2 \<and>
   next_key [Ch CHR ''x'', Ch CHR ''c''] = Inr (Ignore, [Ch CHR ''c'']) \<and>
   consumed [Ch CHR ''x'', Ch CHR ''c''] = 1"
  using next_key_consumption [of "[]" "CHR ''A''" "[Ch CHR ''c'']" "CHR ''q''" "CHR ''x''"]
  by simp

text \<open>
  C6 as stated fails: of \<open>ESC q q\<close> the decoder takes two characters, neither one nor
  three, and the \<open>q\<close> it swallowed does not quit.
\<close>

theorem escape_then_other_consumes_two:
  "next_key [Ch (CHR 0x1B), Ch CHR ''q'', Ch CHR ''q''] = Inr (Ignore, [Ch CHR ''q'']) \<and>
   consumed [Ch (CHR 0x1B), Ch CHR ''q'', Ch CHR ''q''] = 2 \<and>
   \<not> (consumed [Ch (CHR 0x1B), Ch CHR ''q'', Ch CHR ''q''] = 1 \<or>
      consumed [Ch (CHR 0x1B), Ch CHR ''q'', Ch CHR ''q''] = 3)"
  by (simp add: consumed_def next_key_def ESC_def)

text \<open>
  C5. From the files \<open>a, b, c\<close> with the focus on the first and nothing picked, the
  keys pick, down, down, drop, combine give the order \<open>b, c, a\<close>; for the same keys
  as characters (Enter, \<open>ESC [ B\<close> twice, Enter, \<open>c\<close>) the \<open>try\<close> block runs the
  combining on the state whose list is \<open>b, c, a\<close>, and with a decoder and an export
  that succeed the files are processed and written in that order.
\<close>

theorem scenario_pick_down_down_drop_combine:
  "apply_cmds [TogglePick, MoveDown, MoveDown, TogglePick, Combine] (start [a, b, c] keys)
     = Inr ((start [a, b, c] keys)\<lparr>mp3_files := [b, c, a], focused_index := 2\<rparr>) \<and>
   try_block read_mp3_file export
     (start [a, b, c]
        [Ch (CHR 0x0D), Ch (CHR 0x1B), Ch CHR ''['', Ch CHR ''B'',
         Ch (CHR 0x1B), Ch CHR ''['', Ch CHR ''B'', Ch (CHR 0x0D), Ch CHR ''c''])
     = Some (combine_and_export read_mp3_file export
         \<lparr>mp3_files = [b, c, a], focused_index = 2, selected_index = None,
          char = Some ''c'', stdin = [], raw_mode = False, restores = 1,
          processing = [], written = None, messages = []\<rparr>) \<and>
   session (\<lambda>f. Inr (ms f)) (\<lambda>a. None) [a, b, c]
        [Ch (CHR 0x0D), Ch (CHR 0x1B), Ch CHR ''['', Ch CHR ''B'',
         Ch (CHR 0x1B), Ch CHR ''['', Ch CHR ''B'', Ch (CHR 0x0D), Ch CHR ''c'']
     = Some (None,
         \<lparr>mp3_files = [b, c, a], focused_index = 2, selected_index = None,
          char = Some ''c'', stdin = [], raw_mode = False, restores = 2,
          processing = [b, c, a],
          written = Some [Clip b (ms b), Silence 3000, Clip c (ms c), Silence 3000,
            Clip a (ms a)],
          messages = []\<rparr>)"
proof -
  have il: "interactive_loop ((start [a, b, c]
        [Ch (CHR 0x0D), Ch (CHR 0x1B), Ch CHR ''['', Ch CHR ''B'',
         Ch (CHR 0x1B), Ch CHR ''['', Ch CHR ''B'', Ch (CHR 0x0D), Ch CHR ''c''])
        \<lparr>raw_mode := True\<rparr>)
     = Some (None, \<lparr>mp3_files = [b, c, a], focused_index = 2, selected_index = None,
          char = Some ''c'', stdin = [], raw_mode = False, restores = 1,
          processing = [], written = None, messages = []\<rparr>)"
    by (simp add: start_def interactive_loop.simps loop_body_def ESC_def CR_def LF_def
        swap_items_def py_index_def)
  have 1: "apply_cmds [TogglePick, MoveDown, MoveDown, TogglePick, Combine] (start [a, b, c] keys)
     = Inr ((start [a, b, c] keys)\<lparr>mp3_files := [b, c, a], focused_index := 2\<rparr>)"
    by (simp add: start_def swap_items_def py_index_def)
  have 2: "try_block read_mp3_file export
     (start [a, b, c]
        [Ch (CHR 0x0D), Ch (CHR 0x1B), Ch CHR ''['', Ch CHR ''B'',
         Ch (CHR 0x1B), Ch CHR ''['', Ch CHR ''B'', Ch (CHR 0x0D), Ch CHR ''c''])
     = Some (combine_and_export read_mp3_file export
         \<lparr>mp3_files = [b, c, a], focused_index = 2, selected_index = None,
          char = Some ''c'', stdin = [], raw_mode = False, restores = 1,
          processing = [], written = None, messages = []\<rparr>)" for read_mp3_file export
    unfolding try_block_def il by simp
  have 3: "session (\<lambda>f. Inr (ms f)) (\<lambda>a. None) [a, b, c]
        [Ch (CHR 0x0D), Ch (CHR 0x1B), Ch CHR ''['', Ch CHR ''B'',
         Ch (CHR 0x1B), Ch CHR ''['', Ch CHR ''B'', Ch (CHR 0x0D), Ch CHR ''c'']
     = Some (None,
         \<lparr>mp3_files = [b, c, a], focused_index = 2, selected_index = None,
          char = Some ''c'', stdin = [], raw_mode = False, restores = 2,
          processing = [b, c, a],
          written = Some [Clip b (ms b), Silence 3000, Clip c (ms c), Silence 3000,
            Clip a (ms a)],
          messages = []\<rparr>)"
    unfolding session_def 2
    by (simp add: combine_and_export_def audio_len_def finally_block_def)
  from 1 2 3 show ?thesis by blast
qed

section \<open>Claims on combining\<close>

lemma combine_loop_all_skipped:
  "\<forall>f\<in>set fs. skipped rd f \<Longrightarrow> combine_loop rd n i fs acc pr = (None, acc, pr @ fs)"
  by (induction fs arbitrary: i pr) (auto simp: skipped_def split: sum.splits)

lemma combine_loop_counts:
  assumes "\<forall>f\<in>set fs. decodes rd f \<or> skipped rd f" "n = i + length fs"
  shows "\<exists>a. combine_loop rd n i fs acc pr = (None, acc @ a, pr @ fs) \<and>
     count_clips a = length (filter (decodes rd) fs) \<and>
     count_gaps a = length (filter (decodes rd) (butlast fs))"
  using assms
proof (induction fs arbitrary: i acc pr)
  case Nil
  then show ?case by (simp add: count_clips_def count_gaps_def)
next
  case (Cons f fs)
  from Cons.prems have n: "n = Suc i + length fs" by simp
  from Cons.prems have all: "\<forall>f\<in>set fs. decodes rd f \<or> skipped rd f" by simp
  show ?case
  proof (cases "rd f")
    case (Inl e)
    with Cons.prems have c: "caught e" and nd: "\<not> decodes rd f"
      by (auto simp: decodes_def skipped_def)
    from Cons.IH[OF all n, of acc "pr @ [f]"] obtain a where
      a: "combine_loop rd n (Suc i) fs acc (pr @ [f]) = (None, acc @ a, (pr @ [f]) @ fs)"
        "count_clips a = length (filter (decodes rd) fs)"
        "count_gaps a = length (filter (decodes rd) (butlast fs))" by blast
    from a(3) all have "fs = [] \<Longrightarrow> count_gaps a = 0" by simp
    with Inl c nd a show ?thesis by (intro exI[of _ a]) auto
  next
    case (Inr ms)
    then have d: "decodes rd f" by (simp add: decodes_def)
    show ?thesis
    proof (cases "fs = []")
      case True
      with Inr n d show ?thesis
        by (intro exI[of _ "[Clip f ms]"]) (simp add: count_clips_def count_gaps_def)
    next
      case False
      with n have lt: "int i < int n - 1" by (cases fs) auto
      from Cons.IH[OF all n, of "acc @ [Clip f ms, Silence 3000]" "pr @ [f]"] obtain a where
        a: "combine_loop rd n (Suc i) fs (acc @ [Clip f ms, Silence 3000]) (pr @ [f])
              = (None, (acc @ [Clip f ms, Silence 3000]) @ a, (pr @ [f]) @ fs)"
          "count_clips a = length (filter (decodes rd) fs)"
          "count_gaps a = length (filter (decodes rd) (butlast fs))" by blast
      from Inr lt a d False show ?thesis
        by (intro exI[of _ "[Clip f ms, Silence 3000] @ a"])
          (simp add: count_clips_def count_gaps_def)
    qed
  qed
qed

lemma filter_all_but_one:
  assumes "k < length xs" "\<not> P (xs ! k)" "\<forall>j<length xs. j \<noteq> k \<longrightarrow> P (xs ! j)"
  shows "length (filter P xs) = length xs - 1"
proof -
  have xs: "xs = take k xs @ xs ! k # drop (Suc k) xs"
    using assms(1) by (rule id_take_nth_drop)
  have 1: "filter P (take k xs) = take k xs"
    using assms by (auto simp: filter_id_conv in_set_conv_nth)
  have 2: "filter P (drop (Suc k) xs) = drop (Suc k) xs"
    using assms by (auto simp: filter_id_conv in_set_conv_nth)
  have "length (filter P xs) = length (filter P (take k xs @ xs ! k # drop (Suc k) xs))"
    using xs by simp
  also have "\<dots> = length (take k xs) + length (drop (Suc k) xs)"
    using assms(2) 1 2 by simp
  also have "\<dots> = length xs - 1" using assms(1) by simp
  finally show ?thesis .
qed

lemma combine_one_failure:
  assumes k: "k < length fs" and bad: "skipped rd (fs ! k)"
    and good: "\<forall>j<length fs. j \<noteq> k \<longrightarrow> decodes rd (fs ! j)"
  shows "\<exists>a. combine_loop rd (length fs) 0 fs [] [] = (None, a, fs) \<and>
     count_clips a = length fs - 1 \<and>
     count_gaps a = (if k = length fs - 1 then length fs - 1 else length fs - 2)"
proof -
  have nd: "\<not> decodes rd (fs ! k)" using bad by (auto simp: decodes_def skipped_def split: sum.splits)
  have all: "\<forall>f\<in>set fs. decodes rd f \<or> skipped rd f"
    using k bad good by (auto simp: in_set_conv_nth)
  from combine_loop_counts[OF all, of "length fs" 0 "[]" "[]"] obtain a where
    a: "combine_loop rd (length fs) 0 fs [] [] = (None, a, fs)"
      "count_clips a = length (filter (decodes rd) fs)"
      "count_gaps a = length (filter (decodes rd) (butlast fs))" by auto
  have c: "length (filter (decodes rd) fs) = length fs - 1"
    using k nd good by (rule filter_all_but_one)
  have g: "length (filter (decodes rd) (butlast fs))
      = (if k = length fs - 1 then length fs - 1 else length fs - 2)"
  proof (cases "k = length fs - 1")
    case True
    have "\<forall>x\<in>set (butlast fs). decodes rd x"
      using good True k by (auto simp: in_set_conv_nth nth_butlast)
    then have "filter (decodes rd) (butlast fs) = butlast fs" by (simp add: filter_id_conv)
    with True show ?thesis by simp
  next
    case False
    with k have k': "k < length (butlast fs)" by simp
    have "length (filter (decodes rd) (butlast fs)) = length (butlast fs) - 1"
      using k' nd good by (intro filter_all_but_one) (auto simp: nth_butlast)
    with False show ?thesis by simp
  qed
  from a c g show ?thesis by auto
qed

text \<open>
  C1, at the input where the code departs from it: two files, the second of which does
  not decode. The written audio is the first file followed by a gap: one audio segment
  and one gap, where the claim says none. Lemma \<open>combine_one_failure\<close> above gives the
  general picture: with one skipped file at position \<open>k\<close> of \<open>N\<close> there are \<open>N - 1\<close>
  segments, \<open>N - 2\<close> gaps when \<open>k\<close> is not the last position, and \<open>N - 1\<close> gaps when
  it is.
\<close>

theorem last_file_skipped_leaves_trailing_silence:
  "session (\<lambda>f. if f = ''b.mp3'' then Inl CouldntDecodeError else Inr 1000) (\<lambda>a. None)
     [''a.mp3'', ''b.mp3''] [Ch CHR ''c'']
     = Some (None,
         \<lparr>mp3_files = [''a.mp3'', ''b.mp3''], focused_index = 0, selected_index = None,
          char = Some ''c'', stdin = [], raw_mode = False, restores = 2,
          processing = [''a.mp3'', ''b.mp3''],
          written = Some [Clip ''a.mp3'' 1000, Silence 3000], messages = []\<rparr>) \<and>
   count_clips [Clip ''a.mp3'' 1000, Silence 3000] = 1 \<and>
   count_gaps [Clip ''a.mp3'' 1000, Silence 3000] = 1"
  by (simp add: session_def try_block_def start_def interactive_loop.simps loop_body_def
      ESC_def CR_def LF_def combine_and_export_def audio_len_def finally_block_def
      count_clips_def count_gaps_def)

text \<open>
  C4. When the loop is left by \<open>c\<close> and every file is skipped, the session ends by
  \<open>sys.exit(1)\<close> with the message that no valid file could be processed, nothing is
  written and \<open>export\<close> plays no part; every file was tried.
\<close>

theorem all_skipped_reports_no_valid_files:
  assumes "interactive_loop ((start files keys)\<lparr>raw_mode := True\<rparr>) = Some (None, w1)"
    and "char w1 = Some ''c''"
    and "\<forall>f\<in>set files. skipped read_mp3_file f"
  shows "\<exists>w. session read_mp3_file export files keys = Some (Some (SystemExit 1), w) \<and>
    exit_status (Some (SystemExit 1)) = 1 \<and> messages w = [NoValidFiles] \<and>
    written w = None \<and> processing w = mp3_files w1"
proof -
  have c0: "char ((start files keys)\<lparr>raw_mode := True\<rparr>) \<noteq> Some ''c''"
    by (simp add: start_def)
  from interactive_loop_result[OF assms(1) editor_ok_raw_start c0]
  have w1: "mset (mp3_files w1) = mset files" "processing w1 = []" "written w1 = None"
    "messages w1 = []" by (simp_all add: start_def)
  from w1(1) have "set (mp3_files w1) = set files" by (rule mset_eq_setD)
  with assms(3) have "\<forall>f\<in>set (mp3_files w1). skipped read_mp3_file f" by simp
  from combine_loop_all_skipped[OF this]
  have cl: "combine_loop read_mp3_file (length (mp3_files w1)) 0 (mp3_files w1) [] [] =
    (None, [], mp3_files w1)" by simp
  have ce: "combine_and_export read_mp3_file export w1 =
    (Some (SystemExit 1), w1\<lparr>processing := mp3_files w1, messages := [NoValidFiles]\<rparr>)"
    by (simp add: combine_and_export_def cl audio_len_def w1)
  have "session read_mp3_file export files keys =
    Some (Some (SystemExit 1), w1\<lparr>processing := mp3_files w1, messages := [NoValidFiles],
      raw_mode := False, restores := Suc (restores w1)\<rparr>)"
    by (simp add: session_def try_block_def assms(1,2) ce finally_block_def)
  with w1 show ?thesis by simp
qed

theorem all_skipped_reports_no_valid_files_witness:
  "interactive_loop ((start [''a.mp3'', ''b.mp3''] [Ch CHR ''c''])\<lparr>raw_mode := True\<rparr>)
     = Some (None, (start [''a.mp3'', ''b.mp3''] [])\<lparr>char := Some ''c'', restores := 1\<rparr>) \<and>
   skipped (\<lambda>f. Inl CouldntDecodeError) ''a.mp3'' \<and>
   skipped (\<lambda>f. Inl CouldntDecodeError) ''b.mp3'' \<and>
   (\<exists>w. session (\<lambda>f. Inl CouldntDecodeError) (\<lambda>a. None) [''a.mp3'', ''b.mp3''] [Ch CHR ''c'']
          = Some (Some (SystemExit 1), w) \<and>
        messages w = [NoValidFiles] \<and> written w = None \<and>
        processing w = [''a.mp3'', ''b.mp3''])"
proof -
  have il: "interactive_loop ((start [''a.mp3'', ''b.mp3''] [Ch CHR ''c''])\<lparr>raw_mode := True\<rparr>)
     = Some (None, (start [''a.mp3'', ''b.mp3''] [])\<lparr>char := Some ''c'', restores := 1\<rparr>)"
    by (simp add: start_def interactive_loop.simps loop_body_def ESC_def CR_def LF_def)
  have c: "char ((start [''a.mp3'', ''b.mp3''] [])\<lparr>char := Some ''c'', restores := 1\<rparr>)
     = Some ''c''" by simp
  have sk: "\<forall>f\<in>set [''a.mp3'', ''b.mp3'']. skipped (\<lambda>f. Inl CouldntDecodeError) f"
    by (simp add: skipped_def)
  from all_skipped_reports_no_valid_files[OF il c sk, of "\<lambda>a. None"] il sk
  show ?thesis by (simp add: start_def)
qed

text \<open>
  C10. One file that decodes to audio of length zero: the run reports that no valid file
  could be processed and exits with status 1, although the file decoded. In general,
  once the \<open>for\<close> loop has ended, the branch of that report is taken exactly when the
  combined audio has length zero.
\<close>

theorem zero_length_audio_reports_no_valid_files:
  "session (\<lambda>f. Inr 0) export [''a.mp3''] [Ch CHR ''c'']
     = Some (Some (SystemExit 1),
         \<lparr>mp3_files = [''a.mp3''], focused_index = 0, selected_index = None,
          char = Some ''c'', stdin = [], raw_mode = False, restores = 2,
          processing = [''a.mp3''], written = None, messages = [NoValidFiles]\<rparr>) \<and>
   decodes (\<lambda>f. Inr 0) ''a.mp3'' \<and>
   (combine_loop read_mp3_file (length (mp3_files w)) 0 (mp3_files w) [] [] = (None, a, pr)
    \<longrightarrow> (combine_and_export read_mp3_file export w
          = (Some (SystemExit 1), w\<lparr>processing := pr, messages := messages w @ [NoValidFiles]\<rparr>))
        = (audio_len a = 0))"
proof -
  have 1: "session (\<lambda>f. Inr 0) export [''a.mp3''] [Ch CHR ''c'']
     = Some (Some (SystemExit 1),
         \<lparr>mp3_files = [''a.mp3''], focused_index = 0, selected_index = None,
          char = Some ''c'', stdin = [], raw_mode = False, restores = 2,
          processing = [''a.mp3''], written = None, messages = [NoValidFiles]\<rparr>)"
    by (simp add: session_def try_block_def start_def interactive_loop.simps loop_body_def
      ESC_def CR_def LF_def combine_and_export_def audio_len_def finally_block_def)
  have 2: "decodes (\<lambda>f. Inr 0) ''a.mp3''" by (simp add: decodes_def)
  have 3: "(combine_and_export read_mp3_file export w
          = (Some (SystemExit 1), w\<lparr>processing := pr, messages := messages w @ [NoValidFiles]\<rparr>))
        = (audio_len a = 0)"
    if cl: "combine_loop read_mp3_file (length (mp3_files w)) 0 (mp3_files w) [] [] = (None, a, pr)"
  proof (cases "audio_len a = 0")
    case True
    then show ?thesis by (simp add: combine_and_export_def cl)
  next
    case False
    have ne: "messages (snd (combine_and_export read_mp3_file export w))
        \<noteq> messages w @ [NoValidFiles]"
      using False by (auto simp: combine_and_export_def cl Let_def split: option.splits if_splits)
    have "combine_and_export read_mp3_file export w
        \<noteq> (Some (SystemExit 1), w\<lparr>processing := pr, messages := messages w @ [NoValidFiles]\<rparr>)"
    proof
      assume "combine_and_export read_mp3_file export w
        = (Some (SystemExit 1), w\<lparr>processing := pr, messages := messages w @ [NoValidFiles]\<rparr>)"
      then have "messages (snd (combine_and_export read_mp3_file export w))
        = messages w @ [NoValidFiles]" by simp
      with ne show False by simp
    qed
    with False show ?thesis by simp
  qed
  from 1 2 3 show ?thesis by blast
qed

theorem zero_length_audio_reports_no_valid_files_witness:
  "combine_loop (\<lambda>f. Inr 0) (length (mp3_files (start [''a.mp3''] []))) 0
      (mp3_files (start [''a.mp3''] [])) [] [] = (None, [Clip ''a.mp3'' 0], [''a.mp3'']) \<and>
   audio_len [Clip ''a.mp3'' 0] = 0 \<and>
   combine_and_export (\<lambda>f. Inr 0) (\<lambda>a. None) (start [''a.mp3''] [])
     = (Some (SystemExit 1),
        (start [''a.mp3''] [])\<lparr>processing := [''a.mp3''],
           messages := messages (start [''a.mp3''] []) @ [NoValidFiles]\<rparr>)"
proof -
  have cl: "combine_loop (\<lambda>f. Inr 0) (length (mp3_files (start [''a.mp3''] []))) 0
      (mp3_files (start [''a.mp3''] [])) [] [] = (None, [Clip ''a.mp3'' 0], [''a.mp3''])"
    by (simp add: start_def)
  have z: "audio_len [Clip ''a.mp3'' 0] = 0" by (simp add: audio_len_def)
  from zero_length_audio_reports_no_valid_files
    [of "\<lambda>a. None" "\<lambda>f. Inr 0" "start [''a.mp3''] []" "[Clip ''a.mp3'' 0]" "[''a.mp3'']"]
    cl z
  show ?thesis by simp
qed

section \<open>Claims on the editor and the listing\<close>

text \<open>
  C3. From the initial state (focus 0, nothing picked) over any list of files, every
  finite sequence of commands is applied without an exception, and the files of the
  resulting state are the initial files as a multiset: no step inserts, deletes or
  duplicates an entry.
\<close>

theorem sequence_is_permutation:
  "\<exists>w'. apply_cmds cmds (start files keys) = Inr w' \<and> mset (mp3_files w') = mset files"
  using apply_cmds_ok[OF editor_ok_start, of cmds files keys] by (auto simp: start_def)

text \<open>
  C7. Moving up with the focus on the first item, moving down with the focus on the last
  item, and the same two moves with the picked item first or last, leave the whole state
  as it is, without an exception and without wrapping around.
\<close>

theorem moves_at_boundary_are_noops:
  "(selected_index w = None \<and> focused_index w = 0 \<longrightarrow> apply_cmd MoveUp w = Inr w) \<and>
   (selected_index w = None \<and> focused_index w = int (length (mp3_files w)) - 1
      \<longrightarrow> apply_cmd MoveDown w = Inr w) \<and>
   (selected_index w = Some 0 \<longrightarrow> apply_cmd MoveUp w = Inr w) \<and>
   (selected_index w = Some (int (length (mp3_files w)) - 1) \<longrightarrow> apply_cmd MoveDown w = Inr w)"
  by simp

theorem moves_at_boundary_are_noops_witness:
  "selected_index (start [''a'', ''b'', ''c''] []) = None \<and>
   focused_index (start [''a'', ''b'', ''c''] []) = 0 \<and>
   apply_cmd MoveUp (start [''a'', ''b'', ''c''] []) = Inr (start [''a'', ''b'', ''c''] []) \<and>
   selected_index ((start [''a'', ''b'', ''c''] [])\<lparr>focused_index := 2\<rparr>) = None \<and>
   apply_cmd MoveDown ((start [''a'', ''b'', ''c''] [])\<lparr>focused_index := 2\<rparr>)
     = Inr ((start [''a'', ''b'', ''c''] [])\<lparr>focused_index := 2\<rparr>) \<and>
   apply_cmd MoveUp ((start [''a'', ''b'', ''c''] [])\<lparr>selected_index := Some 0\<rparr>)
     = Inr ((start [''a'', ''b'', ''c''] [])\<lparr>selected_index := Some 0\<rparr>) \<and>
   apply_cmd MoveDown ((start [''a'', ''b'', ''c''] [])\<lparr>focused_index := 2, selected_index := Some 2\<rparr>)
     = Inr ((start [''a'', ''b'', ''c''] [])\<lparr>focused_index := 2, selected_index := Some 2\<rparr>)"
  using moves_at_boundary_are_noops [of "start [''a'', ''b'', ''c''] []"]
    moves_at_boundary_are_noops [of "(start [''a'', ''b'', ''c''] [])\<lparr>focused_index := 2\<rparr>"]
    moves_at_boundary_are_noops [of "(start [''a'', ''b'', ''c''] [])\<lparr>selected_index := Some 0\<rparr>"]
    moves_at_boundary_are_noops
      [of "(start [''a'', ''b'', ''c''] [])\<lparr>focused_index := 2, selected_index := Some 2\<rparr>"]
  by (simp add: start_def)

text \<open>
  C8. In a state with nothing picked, picking and at once unpicking gives back the very
  same state: same files in the same order, same focus, nothing picked.
\<close>

theorem toggle_pick_twice:
  "selected_index w = None \<Longrightarrow> apply_cmds [TogglePick, TogglePick] w = Inr w"
  by simp

theorem toggle_pick_twice_witness:
  "selected_index ((start [''a'', ''b''] [])\<lparr>focused_index := 1\<rparr>) = None \<and>
   apply_cmds [TogglePick, TogglePick] ((start [''a'', ''b''] [])\<lparr>focused_index := 1\<rparr>)
     = Inr ((start [''a'', ''b''] [])\<lparr>focused_index := 1\<rparr>)"
  using toggle_pick_twice [of "(start [''a'', ''b''] [])\<lparr>focused_index := 1\<rparr>"]
  by (simp add: start_def)

text \<open>
  C9. The listing is sorted ascending, holds exactly the entries whose lower-cased name
  ends with \<open>.mp3\<close> (each as often as the folder has it, so no entry is omitted), has
  no duplicates when the folder has none, and for \<open>b.mp3\<close>, \<open>a.MP3\<close>, \<open>c.txt\<close> it
  is \<open>a.MP3\<close>, \<open>b.mp3\<close>.
\<close>

theorem list_mp3_files_sorted_filter:
  "sorted (list_mp3_files all_items) \<and>
   mset (list_mp3_files all_items)
     = mset (filter (\<lambda>file. endswith (lower file) ''.mp3'') all_items) \<and>
   (distinct all_items \<longrightarrow> distinct (list_mp3_files all_items)) \<and>
   list_mp3_files [''b.mp3'', ''a.MP3'', ''c.txt''] = [''a.MP3'', ''b.mp3'']"
proof -
  have "list_mp3_files [''b.mp3'', ''a.MP3'', ''c.txt''] = [''a.MP3'', ''b.mp3'']"
    by code_simp
  then show ?thesis by (simp add: list_mp3_files_def)
qed

theorem list_mp3_files_sorted_filter_witness:
  "distinct [''b.mp3'', ''a.MP3'', ''c.txt''] \<and>
   distinct (list_mp3_files [''b.mp3'', ''a.MP3'', ''c.txt'']) \<and>
   sorted (list_mp3_files [''b.mp3'', ''a.MP3'', ''c.txt''])"
  using list_mp3_files_sorted_filter [of "[''b.mp3'', ''a.MP3'', ''c.txt'']"]
  by simp

end
